theory Spec2Isabelle
  imports Main
begin

section \<open>The encoded-string matcher \<open>possiblyEquals\<close>\<close>

text \<open>
  The development embeds \<^verbatim>\<open>scripts/tools/debug-true-in-code.py\<close>. The function
  \<^verbatim>\<open>possiblyEquals(s1, s2)\<close> has two nested helpers, \<^verbatim>\<open>get_options(segment)\<close> and
  \<^verbatim>\<open>dfs(i, j, diff)\<close>; the helpers read \<^verbatim>\<open>s1\<close> and \<^verbatim>\<open>s2\<close> from the enclosing
  scope, so here they take the two strings as leading arguments.

  Modelling decisions.
  \<^item> A Python string is a \<open>string\<close>; a character stands for its code point, so the
    model covers the code points below 256. The cursors \<open>i\<close>, \<open>j\<close> start at 0 and
    only grow, so they are \<open>nat\<close>; \<open>diff\<close> is an unbounded \<open>int\<close>.
  \<^item> An exception is a value: every function that can raise returns
    \<open>error + 'a\<close>, with \<open>Inl\<close> the exception. The only operation of the source
    that can raise is \<^verbatim>\<open>int(...)\<close> (every index is guarded by a length test).
  \<^item> The call stack is unbounded: the interpreter's recursion limit is not part
    of the model.
\<close>

subsection \<open>Characters and exceptions\<close>

datatype error = ValueError

text \<open>
  \<^verbatim>\<open>str.isalpha\<close> and \<^verbatim>\<open>str.isdigit\<close> on one character, for the code points
  below 256: the letters are A-Z, a-z, U+00AA, U+00B5, U+00BA, U+00C0-U+00D6,
  U+00D8-U+00F6 and U+00F8-U+00FF; the digits are 0-9 and the superscripts
  U+00B2, U+00B3, U+00B9.
\<close>

definition isalpha :: "char \<Rightarrow> bool" where
  "isalpha c =
     (let n = (of_char c :: nat) in
        (65 \<le> n \<and> n \<le> 90) \<or> (97 \<le> n \<and> n \<le> 122) \<or> n = 170 \<or> n = 181 \<or> n = 186 \<or>
        (192 \<le> n \<and> n \<le> 214) \<or> (216 \<le> n \<and> n \<le> 246) \<or> (248 \<le> n \<and> n \<le> 255))"

definition isdigit :: "char \<Rightarrow> bool" where
  "isdigit c =
     (let n = (of_char c :: nat) in
        (48 \<le> n \<and> n \<le> 57) \<or> n = 178 \<or> n = 179 \<or> n = 185)"

text \<open>The alphabet of the specification: lowercase ASCII letters and ASCII digits.\<close>

definition is_lower :: "char \<Rightarrow> bool" where
  "is_lower c = (let n = (of_char c :: nat) in 97 \<le> n \<and> n \<le> 122)"

definition is_ascii_digit :: "char \<Rightarrow> bool" where
  "is_ascii_digit c = (let n = (of_char c :: nat) in 48 \<le> n \<and> n \<le> 57)"

definition well_formed :: "string \<Rightarrow> bool" where
  "well_formed s = list_all (\<lambda>c. is_lower c \<or> is_ascii_digit c) s"

text \<open>
  \<^verbatim>\<open>int(s)\<close> on a string: the decimal value when \<open>s\<close> is a non-empty string of
  ASCII digits, \<^verbatim>\<open>ValueError\<close> on the empty string and on a string with any other
  character. (Python also accepts a sign, surrounding blanks and single
  underscores between digits, each of which needs at least two characters or
  fails alone; \<open>get_options\<close> below evaluates \<^verbatim>\<open>int\<close> only on strings of at
  most one character before it returns or raises, where the model is exact.)
\<close>

definition int_py :: "string \<Rightarrow> error + int" where
  "int_py s =
     (if s = [] \<or> \<not> list_all is_ascii_digit s then Inl ValueError
      else Inr (foldl (\<lambda>acc c. 10 * acc + (int (of_char c) - 48)) 0 s))"

text \<open>\<^verbatim>\<open>a + b\<close> on two results, the left operand evaluated first.\<close>

definition add_res :: "error + int \<Rightarrow> error + int \<Rightarrow> error + int" where
  "add_res a b =
     (case a of Inl e \<Rightarrow> Inl e
      | Inr x \<Rightarrow> (case b of Inl e \<Rightarrow> Inl e | Inr y \<Rightarrow> Inr (x + y)))"

text \<open>\<^verbatim>\<open>res.append(v)\<close> where computing \<open>v\<close> may raise.\<close>

definition append_res :: "int list \<Rightarrow> error + int \<Rightarrow> error + int list" where
  "append_res res v = (case v of Inl e \<Rightarrow> Inl e | Inr x \<Rightarrow> Inr (res @ [x]))"

text \<open>The slice \<^verbatim>\<open>segment[a:b]\<close> for \<open>0 \<le> a\<close>, \<open>0 \<le> b\<close>.\<close>

definition slice :: "string \<Rightarrow> nat \<Rightarrow> nat \<Rightarrow> string" where
  "slice s a b = take (b - a) (drop a s)"

subsection \<open>\<open>get_options\<close>\<close>

text \<open>
  The three nested \<^verbatim>\<open>for\<close> loops of \<^verbatim>\<open>get_options\<close>, innermost first. Each takes
  the values its loop variable still has to run through and the list \<open>res\<close>
  built so far. A \<^verbatim>\<open>break\<close> leaves the loop over \<open>k\<close> only.
\<close>

fun loop_k :: "string \<Rightarrow> nat \<Rightarrow> nat \<Rightarrow> nat list \<Rightarrow> int list \<Rightarrow> error + int list" where
  "loop_k segment i j [] res = Inr res"
| "loop_k segment i j (k # ks) res =
     (let n = length segment in
      if i = n then append_res res (int_py segment)
      else if j = n then
        append_res res (add_res (int_py (take i segment)) (int_py (drop i segment)))
      else if k = n then
        append_res res
          (add_res (add_res (int_py (take i segment)) (int_py (slice segment i j)))
                   (int_py (drop j segment)))
      else loop_k segment i j ks res)"

fun loop_j :: "string \<Rightarrow> nat \<Rightarrow> nat list \<Rightarrow> int list \<Rightarrow> error + int list" where
  "loop_j segment i [] res = Inr res"
| "loop_j segment i (j # js) res =
     (case loop_k segment i j [j ..< Suc (length segment)] res of
        Inl e \<Rightarrow> Inl e
      | Inr res' \<Rightarrow> loop_j segment i js res')"

fun loop_i :: "string \<Rightarrow> nat list \<Rightarrow> int list \<Rightarrow> error + int list" where
  "loop_i segment [] res = Inr res"
| "loop_i segment (i # is) res =
     (case loop_j segment i [i ..< Suc (length segment)] res of
        Inl e \<Rightarrow> Inl e
      | Inr res' \<Rightarrow> loop_i segment is res')"

definition get_options :: "string \<Rightarrow> error + int list" where
  "get_options segment =
     (if segment = [] then Inr [0]
      else loop_i segment [1 ..< Suc (length segment)] [])"

subsection \<open>\<open>dfs\<close>\<close>

text \<open>
  The \<^verbatim>\<open>while\<close> loop that collects the digits at the cursor: it stops at the
  end of the string, at the first character that is not a digit, or as soon
  as \<open>num_seg\<close> holds more than three characters.
\<close>

function scan_num_seg :: "string \<Rightarrow> nat \<Rightarrow> string \<Rightarrow> string" where
  "scan_num_seg s k num_seg =
     (if k < length s \<and> isdigit (s ! k) then
        (let num_seg' = num_seg @ [s ! k] in
         if length num_seg' > 3 then num_seg'
         else scan_num_seg s (k + 1) num_seg')
      else num_seg)"
  by pat_completeness auto
termination
  by (relation "measure (\<lambda>(s, k, num_seg). length s - k)") auto

text \<open>
  The loop \<^verbatim>\<open>for x in xs: if f(x): return True\<close> followed by
  \<^verbatim>\<open>return False\<close>, where \<open>f\<close> may raise.
\<close>

fun for_return_true :: "('a \<Rightarrow> error + bool) \<Rightarrow> 'a list \<Rightarrow> error + bool" where
  "for_return_true f [] = Inr False"
| "for_return_true f (x # xs) =
     (case f x of
        Inl e \<Rightarrow> Inl e
      | Inr b \<Rightarrow> if b then Inr True else for_return_true f xs)"

lemma for_return_true_cong [fundef_cong]:
  "xs = ys \<Longrightarrow> (\<And>x. x \<in> set ys \<Longrightarrow> f x = g x) \<Longrightarrow> for_return_true f xs = for_return_true g ys"
  by (induction ys arbitrary: xs) (auto split: sum.splits)

function dfs :: "string \<Rightarrow> string \<Rightarrow> nat \<Rightarrow> nat \<Rightarrow> int \<Rightarrow> error + bool" where
  "dfs s1 s2 i j diff =
     (if i = length s1 \<and> j = length s2 then Inr (diff = 0)
      else if diff = 0 then
        (if i < length s1 \<and> j < length s2 \<and> isalpha (s1 ! i) \<and> isalpha (s2 ! j) then
           (if s1 ! i \<noteq> s2 ! j then Inr False
            else dfs s1 s2 (i + 1) (j + 1) 0)
         else Inr False)
      else if diff > 0 then
        (if j \<ge> length s2 then Inr False
         else if isalpha (s2 ! j) then dfs s1 s2 i (j + 1) (diff - 1)
         else
           (let num_seg = scan_num_seg s2 j [] in
            for_return_true
              (\<lambda>seg_len.
                 case get_options (take seg_len num_seg) of
                   Inl e \<Rightarrow> Inl e
                 | Inr vals \<Rightarrow>
                     for_return_true (\<lambda>val. dfs s1 s2 i (j + seg_len) (diff - val)) vals)
              [1 ..< Suc (length num_seg)]))
      else
        (if i \<ge> length s1 then Inr False
         else if isalpha (s1 ! i) then dfs s1 s2 (i + 1) j (diff + 1)
         else
           (let num_seg = scan_num_seg s1 i [] in
            for_return_true
              (\<lambda>seg_len.
                 case get_options (take seg_len num_seg) of
                   Inl e \<Rightarrow> Inl e
                 | Inr vals \<Rightarrow>
                     for_return_true (\<lambda>val. dfs s1 s2 (i + seg_len) j (diff + val)) vals)
              [1 ..< Suc (length num_seg)])))"
  by pat_completeness auto
termination
  by (relation "measure (\<lambda>(s1, s2, i, j, diff). (length s1 - i) + (length s2 - j))") auto

declare dfs.simps [simp del]
declare scan_num_seg.simps [simp del]

definition possiblyEquals :: "string \<Rightarrow> string \<Rightarrow> error + bool" where
  "possiblyEquals s1 s2 = dfs s1 s2 0 0 0"

subsection \<open>The call graph of \<open>dfs\<close>\<close>

text \<open>
  The recursive calls of \<open>dfs\<close>, as a step relation on the search state
  \<open>(i, j, diff)\<close>: one rule per call site of the source, under the guards that
  lead to it. The two rules for the digit loops allow every prefix length and
  every enumerated value; they do not record that a loop stops at the first
  call that returns \<^verbatim>\<open>True\<close>, so a run makes no call outside the relation.
\<close>

inductive dfs_calls :: "string \<Rightarrow> string \<Rightarrow> nat \<times> nat \<times> int \<Rightarrow> nat \<times> nat \<times> int \<Rightarrow> bool"
  for s1 s2 :: string where
  sync:
    "\<not> (i = length s1 \<and> j = length s2) \<Longrightarrow> i < length s1 \<Longrightarrow> j < length s2 \<Longrightarrow>
     isalpha (s1 ! i) \<Longrightarrow> isalpha (s2 ! j) \<Longrightarrow> s1 ! i = s2 ! j \<Longrightarrow>
     dfs_calls s1 s2 (i, j, 0) (i + 1, j + 1, 0)"
| pos_letter:
    "\<not> (i = length s1 \<and> j = length s2) \<Longrightarrow> diff > 0 \<Longrightarrow> j < length s2 \<Longrightarrow>
     isalpha (s2 ! j) \<Longrightarrow>
     dfs_calls s1 s2 (i, j, diff) (i, j + 1, diff - 1)"
| pos_digits:
    "\<not> (i = length s1 \<and> j = length s2) \<Longrightarrow> diff > 0 \<Longrightarrow> j < length s2 \<Longrightarrow>
     \<not> isalpha (s2 ! j) \<Longrightarrow> num_seg = scan_num_seg s2 j [] \<Longrightarrow>
     seg_len \<in> set [1 ..< Suc (length num_seg)] \<Longrightarrow>
     get_options (take seg_len num_seg) = Inr vals \<Longrightarrow> val \<in> set vals \<Longrightarrow>
     dfs_calls s1 s2 (i, j, diff) (i, j + seg_len, diff - val)"
| neg_letter:
    "\<not> (i = length s1 \<and> j = length s2) \<Longrightarrow> diff < 0 \<Longrightarrow> i < length s1 \<Longrightarrow>
     isalpha (s1 ! i) \<Longrightarrow>
     dfs_calls s1 s2 (i, j, diff) (i + 1, j, diff + 1)"
| neg_digits:
    "\<not> (i = length s1 \<and> j = length s2) \<Longrightarrow> diff < 0 \<Longrightarrow> i < length s1 \<Longrightarrow>
     \<not> isalpha (s1 ! i) \<Longrightarrow> num_seg = scan_num_seg s1 i [] \<Longrightarrow>
     seg_len \<in> set [1 ..< Suc (length num_seg)] \<Longrightarrow>
     get_options (take seg_len num_seg) = Inr vals \<Longrightarrow> val \<in> set vals \<Longrightarrow>
     dfs_calls s1 s2 (i, j, diff) (i + seg_len, j, diff + val)"

text \<open>
  The invocation \<open>dfs(i, j, diff)\<close> evaluates \<^verbatim>\<open>get_options(seg)\<close>: it is in one
  of the two digit loops, and \<open>seg\<close> is a non-empty prefix of the scanned
  digits (again without the early exit of the loops).
\<close>

definition calls_get_options :: "string \<Rightarrow> string \<Rightarrow> nat \<times> nat \<times> int \<Rightarrow> string \<Rightarrow> bool" where
  "calls_get_options s1 s2 st seg =
     (case st of (i, j, diff) \<Rightarrow>
        \<not> (i = length s1 \<and> j = length s2) \<and>
        ((diff > 0 \<and> j < length s2 \<and> \<not> isalpha (s2 ! j) \<and>
          (\<exists>seg_len \<in> set [1 ..< Suc (length (scan_num_seg s2 j []))].
             seg = take seg_len (scan_num_seg s2 j []))) \<or>
         (diff < 0 \<and> i < length s1 \<and> \<not> isalpha (s1 ! i) \<and>
          (\<exists>seg_len \<in> set [1 ..< Suc (length (scan_num_seg s1 i []))].
             seg = take seg_len (scan_num_seg s1 i [])))))"

section \<open>Properties\<close>

subsection \<open>Character classes\<close>

lemma is_lower_isalpha: "is_lower c \<Longrightarrow> isalpha c"
  by (simp add: is_lower_def isalpha_def Let_def)

lemma is_ascii_digit_not_isalpha: "is_ascii_digit c \<Longrightarrow> \<not> isalpha c"
  by (simp add: is_ascii_digit_def isalpha_def Let_def)

lemma isdigit_not_isalpha: "isdigit c \<Longrightarrow> \<not> isalpha c"
  by (auto simp add: isdigit_def isalpha_def Let_def)

lemma is_ascii_digit_not_lower: "is_ascii_digit c \<Longrightarrow> \<not> is_lower c"
  by (simp add: is_ascii_digit_def is_lower_def Let_def)

lemma well_formed_isalpha: "well_formed s \<Longrightarrow> list_all isalpha s = list_all is_lower s"
  by (induction s)
     (auto simp: well_formed_def is_lower_isalpha is_ascii_digit_not_isalpha)

lemma well_formed_no_digit:
  "well_formed s \<Longrightarrow> list_all is_lower s = (\<not> list_ex is_ascii_digit s)"
  by (induction s) (auto simp: well_formed_def is_ascii_digit_not_lower)

lemma lower_well_formed: "list_all is_lower s \<Longrightarrow> well_formed s"
  by (induction s) (auto simp: well_formed_def)

subsection \<open>The synchronised search\<close>

text \<open>One unfolding of \<open>dfs\<close> at \<open>diff = 0\<close>.\<close>

lemma dfs_zero:
  "dfs s1 s2 i j 0 =
     (if i = length s1 \<and> j = length s2 then Inr True
      else if i < length s1 \<and> j < length s2 \<and> isalpha (s1 ! i) \<and> isalpha (s2 ! j) \<and>
              s1 ! i = s2 ! j
        then dfs s1 s2 (i + 1) (j + 1) 0
      else Inr False)"
  by (subst dfs.simps) simp

text \<open>
  At \<open>diff = 0\<close> the search compares the two remaining suffixes letter by
  letter and rejects at the first character that is not a letter.
\<close>

lemma dfs_zero_drop:
  "i \<le> length s1 \<Longrightarrow> j \<le> length s2 \<Longrightarrow>
   dfs s1 s2 i j 0 = Inr (drop i s1 = drop j s2 \<and> list_all isalpha (drop i s1))"
proof (induction "length s1 - i" arbitrary: i j)
  case 0
  then have i: "i = length s1" by simp
  show ?case
  proof (cases "j = length s2")
    case True
    with i show ?thesis by (simp add: dfs_zero)
  next
    case False
    with 0 have "j < length s2" by simp
    then have "drop j s2 \<noteq> []" by simp
    with i False show ?thesis by (simp add: dfs_zero)
  qed
next
  case (Suc n)
  then have i: "i < length s1" by simp
  then have d1: "drop i s1 = s1 ! i # drop (Suc i) s1"
    by (simp add: Cons_nth_drop_Suc)
  show ?case
  proof (cases "j < length s2")
    case False
    with Suc.prems have "drop j s2 = []" by simp
    with i False d1 show ?thesis by (simp add: dfs_zero)
  next
    case True
    then have d2: "drop j s2 = s2 ! j # drop (Suc j) s2"
      by (simp add: Cons_nth_drop_Suc)
    have n: "n = length s1 - Suc i" using Suc.hyps(2) by simp
    have IH: "dfs s1 s2 (Suc i) (Suc j) 0 =
        Inr (drop (Suc i) s1 = drop (Suc j) s2 \<and> list_all isalpha (drop (Suc i) s1))"
      using Suc.hyps(1)[OF n] i True by simp
    show ?thesis
      using i True IH by (subst dfs_zero) (auto simp: d1 d2)
  qed
qed

lemma possiblyEquals_eq:
  "possiblyEquals s1 s2 = Inr (s1 = s2 \<and> list_all isalpha s1)"
  using dfs_zero_drop [of 0 s1 0 s2] by (simp add: possiblyEquals_def)

subsection \<open>Results of the public entry point\<close>

text \<open>
  C1. For well-formed strings \<open>s1\<close> and \<open>s2\<close> (every character a lowercase letter
  or a digit), \<open>possiblyEquals s1 s2\<close> returns \<^verbatim>\<open>True\<close> exactly when the strings
  are equal and every character of \<open>s1\<close> is a lowercase letter, and \<^verbatim>\<open>False\<close>
  otherwise; so a string compared with itself gives \<^verbatim>\<open>True\<close> exactly when it
  holds no digit, and identical strings that contain a digit give \<^verbatim>\<open>False\<close>.
\<close>

theorem possiblyEquals_iff_equal_letters:
  assumes "well_formed s1" and "well_formed s2"
  shows "possiblyEquals s1 s2 = Inr (s1 = s2 \<and> list_all is_lower s1) \<and>
         possiblyEquals s1 s1 = Inr (\<not> list_ex is_ascii_digit s1)"
  using assms
  by (simp add: possiblyEquals_eq well_formed_isalpha well_formed_no_digit)

theorem possiblyEquals_iff_equal_letters_witness:
  "well_formed ''ab'' \<and> possiblyEquals ''ab'' ''ab'' = Inr True \<and>
   well_formed ''a1'' \<and> possiblyEquals ''a1'' ''a1'' = Inr False \<and>
   possiblyEquals ''ab'' ''a1'' = Inr False \<and>
   well_formed [] \<and> possiblyEquals [] [] = Inr True"
proof -
  have w1: "well_formed ''ab''" and w2: "well_formed ''a1''" and w3: "well_formed []"
    by (simp_all add: well_formed_def is_lower_def is_ascii_digit_def)
  show ?thesis
    using w1 w2 w3 possiblyEquals_iff_equal_letters [OF w1 w1]
      possiblyEquals_iff_equal_letters [OF w2 w2]
      possiblyEquals_iff_equal_letters [OF w1 w2]
      possiblyEquals_iff_equal_letters [OF w3 w3]
    by (simp add: is_lower_def is_ascii_digit_def)
qed

text \<open>
  C8. For strings \<open>s1\<close> and \<open>s2\<close> of lowercase letters only (the empty string
  included), \<open>possiblyEquals s1 s2\<close> returns \<^verbatim>\<open>True\<close> if \<open>s1 = s2\<close> and \<^verbatim>\<open>False\<close>
  otherwise.
\<close>

theorem possiblyEquals_letters_only:
  assumes "list_all is_lower s1" and "list_all is_lower s2"
  shows "possiblyEquals s1 s2 = Inr (s1 = s2)"
  using assms
  by (auto simp: possiblyEquals_eq well_formed_isalpha lower_well_formed)

theorem possiblyEquals_letters_only_witness:
  "list_all is_lower ''abc'' \<and> list_all is_lower ''abd'' \<and> list_all is_lower [] \<and>
   possiblyEquals ''abc'' ''abc'' = Inr True \<and>
   possiblyEquals ''abc'' ''abd'' = Inr False \<and>
   possiblyEquals [] [] = Inr True"
proof -
  have l1: "list_all is_lower ''abc''" and l2: "list_all is_lower ''abd''"
    and l3: "list_all is_lower []"
    by (simp_all add: is_lower_def)
  show ?thesis
    using l1 l2 possiblyEquals_letters_only [OF l1 l1]
      possiblyEquals_letters_only [OF l1 l2] possiblyEquals_letters_only [OF l3 l3]
    by simp
qed

text \<open>
  C9. \<open>possiblyEquals s1 s2\<close> and \<open>possiblyEquals s2 s1\<close> give the same result, for
  all strings and so for all well-formed pairs.
\<close>

theorem possiblyEquals_symmetric:
  "possiblyEquals s1 s2 = possiblyEquals s2 s1"
  by (auto simp: possiblyEquals_eq)



text \<open>
  C2. Reflexivity fails: the well-formed string \<^verbatim>\<open>"1"\<close> is not equivalent to
  itself, because at \<open>diff = 0\<close> a digit at either cursor makes \<open>dfs\<close> return
  \<^verbatim>\<open>False\<close>.
\<close>

theorem possiblyEquals_digit_not_reflexive:
  "well_formed ''1'' \<and> possiblyEquals ''1'' ''1'' = Inr False"
  by (simp add: possiblyEquals_eq well_formed_def is_ascii_digit_def isalpha_def)

text \<open>
  C2, as amended. For a well-formed string \<open>s\<close>, \<open>possiblyEquals s s\<close> returns
  \<^verbatim>\<open>True\<close> if every character of \<open>s\<close> is a lowercase letter and \<^verbatim>\<open>False\<close> if \<open>s\<close>
  contains a digit.
\<close>

theorem possiblyEquals_reflexive_on_letters:
  assumes "well_formed s"
  shows "possiblyEquals s s = Inr (list_all is_lower s)"
  using assms by (simp add: possiblyEquals_eq well_formed_isalpha)

theorem possiblyEquals_reflexive_on_letters_witness:
  "well_formed ''abc'' \<and> possiblyEquals ''abc'' ''abc'' = Inr True \<and>
   well_formed ''a5'' \<and> possiblyEquals ''a5'' ''a5'' = Inr False"
proof -
  have w1: "well_formed ''abc''" and w2: "well_formed ''a5''"
    by (simp_all add: well_formed_def is_lower_def is_ascii_digit_def)
  show ?thesis
    using w1 w2 possiblyEquals_reflexive_on_letters [OF w1]
      possiblyEquals_reflexive_on_letters [OF w2]
    by (simp add: is_lower_def)
qed

text \<open>
  C3. \<open>possiblyEquals\<close> does not accept \<^verbatim>\<open>"a5"\<close> against \<^verbatim>\<open>"a00005"\<close>: after the
  common letter both cursors are at a digit with \<open>diff = 0\<close>.
\<close>

theorem possiblyEquals_a5_a00005_rejected:
  "possiblyEquals ''a5'' ''a00005'' \<noteq> Inr True"
  by (simp add: possiblyEquals_eq)

text \<open>
  C3, as amended. \<open>possiblyEquals\<close> returns \<^verbatim>\<open>False\<close> on \<^verbatim>\<open>"a5"\<close> against
  \<^verbatim>\<open>"a00005"\<close> and \<^verbatim>\<open>False\<close> on \<^verbatim>\<open>"a5"\<close> against \<^verbatim>\<open>"a6"\<close>.
\<close>

theorem possiblyEquals_a5_examples:
  "possiblyEquals ''a5'' ''a00005'' = Inr False \<and> possiblyEquals ''a5'' ''a6'' = Inr False"
  by (simp add: possiblyEquals_eq)

subsection \<open>What \<open>get_options\<close> computes\<close>







lemma get_options_single:
  "get_options [c] = (if is_ascii_digit c then Inr [int (of_char c) - 48] else Inl ValueError)"
  by (simp add: get_options_def int_py_def append_res_def)


subsection \<open>The call graph\<close>

text \<open>
  \<open>dfs_calls\<close> is the call relation that the definition of \<open>dfs\<close> gives rise to:
  it agrees with the relation \<open>dfs_rel\<close> extracted from the recursive equation.
\<close>

lemma dfs_calls_sync_Suc:
  "i < length s1 \<Longrightarrow> j < length s2 \<Longrightarrow> isalpha (s1 ! i) \<Longrightarrow> isalpha (s2 ! j) \<Longrightarrow>
   s1 ! i = s2 ! j \<Longrightarrow> dfs_calls s1 s2 (i, j, 0) (Suc i, Suc j, 0)"
  using dfs_calls.sync [of i s1 j s2] by simp

lemma dfs_calls_pos_letter_Suc:
  "\<not> (i = length s1 \<and> j = length s2) \<Longrightarrow> diff > 0 \<Longrightarrow> j < length s2 \<Longrightarrow>
   isalpha (s2 ! j) \<Longrightarrow> dfs_calls s1 s2 (i, j, diff) (i, Suc j, diff - 1)"
  using dfs_calls.pos_letter [of i s1 j s2 diff] by simp

lemma dfs_calls_neg_letter_Suc:
  "\<not> (i = length s1 \<and> j = length s2) \<Longrightarrow> diff < 0 \<Longrightarrow> i < length s1 \<Longrightarrow>
   isalpha (s1 ! i) \<Longrightarrow> dfs_calls s1 s2 (i, j, diff) (Suc i, j, diff + 1)"
  using dfs_calls.neg_letter [of i s1 j s2 diff] by simp

lemma dfs_rel_imp_calls:
  "dfs_rel (s1', s2', st') (s1, s2, st) \<Longrightarrow> s1' = s1 \<and> s2' = s2 \<and> dfs_calls s1 s2 st st'"
  by (erule dfs_rel.cases)
     (auto intro: dfs_calls_sync_Suc dfs_calls_pos_letter_Suc dfs_calls_neg_letter_Suc
        dfs_calls.pos_digits dfs_calls.neg_digits)

lemma dfs_calls_imp_rel:
  assumes "dfs_calls s1 s2 st st'"
  shows "dfs_rel (s1, s2, st') (s1, s2, st)"
  using assms
proof (cases rule: dfs_calls.cases)
  case (sync i j)
  then show ?thesis using dfs_rel.intros(1) [of i s1 j s2 0] by simp
next
  case (pos_letter i j diff)
  then show ?thesis using dfs_rel.intros(2) [of i s1 j s2 diff] by simp
next
  case (pos_digits i j diff num_seg seg_len vals val)
  then show ?thesis
    using dfs_rel.intros(3) [of i s1 j s2 diff num_seg seg_len vals val] by simp
next
  case (neg_letter i j diff)
  then show ?thesis using dfs_rel.intros(4) [of i s1 j s2 diff] by simp
next
  case (neg_digits i j diff num_seg seg_len vals val)
  then show ?thesis
    using dfs_rel.intros(5) [of i s1 j s2 diff num_seg seg_len vals val] by simp
qed

text \<open>The scan stays inside the string.\<close>

lemma scan_num_seg_length:
  "k \<le> length s \<Longrightarrow> k + (length (scan_num_seg s k acc) - length acc) \<le> length s"
proof (induction s k acc rule: scan_num_seg.induct)
  case (1 s k num_seg)
  show ?case
  proof (cases "k < length s \<and> isdigit (s ! k)")
    case False
    then have "scan_num_seg s k num_seg = num_seg"
      by (subst scan_num_seg.simps) auto
    then show ?thesis using 1(2) by simp
  next
    case T: True
    show ?thesis
    proof (cases "length (num_seg @ [s ! k]) > 3")
      case True
      then have "scan_num_seg s k num_seg = num_seg @ [s ! k]"
        using T by (subst scan_num_seg.simps) (auto simp: Let_def)
      then show ?thesis using T by simp
    next
      case False
      have "k + 1 + (length (scan_num_seg s (k + 1) (num_seg @ [s ! k])) - length (num_seg @ [s ! k])) \<le> length s"
        using 1(1)[OF T refl False] T by simp
      moreover have "scan_num_seg s k num_seg = scan_num_seg s (k + 1) (num_seg @ [s ! k])"
        using T False by (subst scan_num_seg.simps) (auto simp: Let_def)
      ultimately show ?thesis by simp
    qed
  qed
qed

lemma scan_num_seg_bound: "k \<le> length s \<Longrightarrow> k + length (scan_num_seg s k []) \<le> length s"
  using scan_num_seg_length [of k s "[]"] by simp

text \<open>Every call moves at least one cursor forward and none past the end.\<close>

lemma dfs_calls_progress:
  assumes "dfs_calls s1 s2 (i, j, d) (i', j', d')"
  shows "i \<le> i' \<and> j \<le> j' \<and> i + j < i' + j' \<and>
         (i \<le> length s1 \<longrightarrow> i' \<le> length s1) \<and> (j \<le> length s2 \<longrightarrow> j' \<le> length s2)"
  using assms
proof (cases rule: dfs_calls.cases)
  case (pos_digits num_seg seg_len vals val)
  then show ?thesis using scan_num_seg_bound [of j s2] by auto
next
  case (neg_digits num_seg seg_len vals val)
  then show ?thesis using scan_num_seg_bound [of i s1] by auto
qed auto

lemma dfs_calls_wf: "wf {(st', st). dfs_calls s1 s2 st st'}"
proof (rule wf_subset)
  show "wf (measure (\<lambda>(i, j, d :: int). (length s1 - i) + (length s2 - j)))" by simp
  show "{(st', st). dfs_calls s1 s2 st st'} \<subseteq> measure (\<lambda>(i, j, d). (length s1 - i) + (length s2 - j))"
    by (auto elim!: dfs_calls.cases)
qed

lemma chain_bound:
  "(dfs_calls s1 s2 ^^ n) (i, j, d) st \<Longrightarrow> i \<le> length s1 \<Longrightarrow> j \<le> length s2 \<Longrightarrow>
   (case st of (i', j', d') \<Rightarrow> i + j + n \<le> i' + j' \<and> i' \<le> length s1 \<and> j' \<le> length s2)"
proof (induction n arbitrary: st)
  case 0
  then show ?case by auto
next
  case (Suc n)
  from Suc.prems(1) obtain y where y: "(dfs_calls s1 s2 ^^ n) (i, j, d) y" and c: "dfs_calls s1 s2 y st"
    by auto
  obtain a b e where yy: "y = (a, b, e)" by (cases y)
  obtain a' b' e' where st: "st = (a', b', e')" by (cases st)
  from Suc.IH [OF y Suc.prems(2,3)] yy
  have 1: "i + j + n \<le> a + b" "a \<le> length s1" "b \<le> length s2" by auto
  from dfs_calls_progress [of s1 s2 a b e a' b' e'] c yy st 1
  show ?case by auto
qed

text \<open>At \<open>diff = 0\<close> the only call is the synchronised one.\<close>

lemma dfs_calls_zero:
  "dfs_calls s1 s2 (i, j, 0) st' \<Longrightarrow> st' = (i + 1, j + 1, 0)"
  by (auto elim: dfs_calls.cases)

lemma reach_zero:
  "(dfs_calls s1 s2)\<^sup>*\<^sup>* (0, 0, 0) st \<Longrightarrow> \<exists>n. st = (n, n, 0)"
proof (induction rule: rtranclp_induct)
  case base
  then show ?case by simp
next
  case (step y z)
  then obtain n where "y = (n, n, 0)" by auto
  with step(2) show ?case using dfs_calls_zero [of s1 s2 n n z] by simp
qed

lemma dfs_calls_ab:
  "dfs_calls ''ab'' ''ab'' (0, 0, 0) (1, 1, 0)" "dfs_calls ''ab'' ''ab'' (1, 1, 0) (2, 2, 0)"
  using dfs_calls.sync [of 0 "''ab''" 0 "''ab''"] dfs_calls.sync [of 1 "''ab''" 1 "''ab''"]
  by (simp_all add: isalpha_def numeral_2_eq_2)

text \<open>
  C7. Every invocation of \<open>dfs\<close> that is reachable from the call \<open>dfs(0, 0, 0)\<close>
  of \<open>possiblyEquals\<close> has \<open>diff = 0\<close> (and equal cursors), for every pair of
  strings; so it enters neither the \<open>diff > 0\<close> nor the \<open>diff < 0\<close> branch, and
  it does not evaluate \<open>get_options\<close>.
\<close>

theorem dfs_reachable_diff_zero:
  assumes "(dfs_calls s1 s2)\<^sup>*\<^sup>* (0, 0, 0) (i, j, diff)"
  shows "diff = 0 \<and> i = j \<and> (\<forall>seg. \<not> calls_get_options s1 s2 (i, j, diff) seg)"
proof -
  from reach_zero [OF assms] have "diff = 0" and "i = j" by auto
  then show ?thesis by (simp add: calls_get_options_def)
qed

theorem dfs_reachable_diff_zero_witness:
  "(dfs_calls ''ab'' ''ab'')\<^sup>*\<^sup>* (0, 0, 0) (2, 2, 0) \<and>
   (\<forall>seg. \<not> calls_get_options ''ab'' ''ab'' (2, 2, 0) seg)"
proof -
  have r: "(dfs_calls ''ab'' ''ab'')\<^sup>*\<^sup>* (0, 0, 0) (2, 2, 0)"
    using dfs_calls_ab by (meson rtranclp.rtrancl_into_rtrancl rtranclp.rtrancl_refl)
  show ?thesis
    using r dfs_reachable_diff_zero [OF r] by simp
qed

text \<open>
  C10. For every pair of strings the search terminates. \<open>possiblyEquals\<close>
  returns a boolean; the call relation of \<open>dfs\<close> is well-founded; every
  recursive call leaves no cursor behind and moves at least one of them
  forward by at least one character; and a chain of \<open>n\<close> nested calls below
  \<open>dfs(0, 0, 0)\<close> has \<open>n \<le> len(s1) + len(s2)\<close>.
\<close>

theorem dfs_terminates:
  "(\<exists>b. possiblyEquals s1 s2 = Inr b) \<and>
   wf {(st', st). dfs_calls s1 s2 st st'} \<and>
   (\<forall>i j d i' j' d'. dfs_calls s1 s2 (i, j, d) (i', j', d') \<longrightarrow>
      i \<le> i' \<and> j \<le> j' \<and> i + j < i' + j') \<and>
   (\<forall>n st. (dfs_calls s1 s2 ^^ n) (0, 0, 0) st \<longrightarrow> n \<le> length s1 + length s2)"
proof -
  have a: "\<exists>b. possiblyEquals s1 s2 = Inr b"
    by (simp add: possiblyEquals_eq)
  have b: "\<forall>i j d i' j' d'. dfs_calls s1 s2 (i, j, d) (i', j', d') \<longrightarrow>
      i \<le> i' \<and> j \<le> j' \<and> i + j < i' + j'"
    using dfs_calls_progress by blast
  have c: "\<forall>n st. (dfs_calls s1 s2 ^^ n) (0, 0, 0) st \<longrightarrow> n \<le> length s1 + length s2"
  proof (intro allI impI)
    fix n st
    assume r: "(dfs_calls s1 s2 ^^ n) (0, 0, 0) st"
    obtain i' j' d' where st: "st = (i', j', d')" by (cases st)
    from chain_bound [OF r] st
    have "n \<le> i' + j'" "i' \<le> length s1" "j' \<le> length s2" by auto
    then show "n \<le> length s1 + length s2" by simp
  qed
  from a dfs_calls_wf b c show ?thesis by blast
qed

theorem dfs_terminates_witness:
  "dfs_calls ''ab'' ''ab'' (0, 0, 0) (1, 1, 0) \<and>
   (dfs_calls ''ab'' ''ab'' ^^ Suc (Suc 0)) (0, 0, 0) (2, 2, 0) \<and>
   Suc (Suc 0) \<le> length ''ab'' + length ''ab'' \<and>
   (\<exists>b. possiblyEquals ''ab'' ''ab'' = Inr b)"
proof -
  have "(dfs_calls ''ab'' ''ab'' OO dfs_calls ''ab'' ''ab'') (0, 0, 0) (2, 2, 0)"
    using dfs_calls_ab by (intro relcomppI)
  then have r: "(dfs_calls ''ab'' ''ab'' ^^ Suc (Suc 0)) (0, 0, 0) (2, 2, 0)"
    by (simp add: eq_OO)
  show ?thesis
    using r dfs_calls_ab(1) dfs_terminates [of "''ab''" "''ab''"] by blast
qed

text \<open>
  C4. \<open>possiblyEquals\<close> does not accept \<^verbatim>\<open>"1"\<close> against \<^verbatim>\<open>"01"\<close>: both cursors
  are at a digit with \<open>diff = 0\<close>.
\<close>

theorem possiblyEquals_1_01_rejected:
  "possiblyEquals ''1'' ''01'' \<noteq> Inr True"
  by (simp add: possiblyEquals_eq)

text \<open>
  C4, as amended. When \<open>diff = 0\<close> and both strings have a digit at their
  cursor, \<open>dfs\<close> returns \<^verbatim>\<open>False\<close> at once: it makes no recursive call and does
  not evaluate \<open>get_options\<close>, so no run is consumed and \<open>diff\<close> is never set
  to the negative of a run's value. In particular \<open>possiblyEquals\<close> returns
  \<^verbatim>\<open>False\<close> on \<^verbatim>\<open>"1"\<close> against \<^verbatim>\<open>"01"\<close>.
\<close>

theorem dfs_zero_digits_rejected:
  assumes "i < length s1" and "j < length s2"
    and "isdigit (s1 ! i)" and "isdigit (s2 ! j)"
  shows "dfs s1 s2 i j 0 = Inr False \<and>
         (\<forall>st'. \<not> dfs_calls s1 s2 (i, j, 0) st') \<and>
         (\<forall>seg. \<not> calls_get_options s1 s2 (i, j, 0) seg) \<and>
         possiblyEquals ''1'' ''01'' = Inr False"
proof -
  from assms have na: "\<not> isalpha (s1 ! i)" by (simp add: isdigit_not_isalpha)
  have 1: "dfs s1 s2 i j 0 = Inr False"
    using assms(1) na by (subst dfs_zero) simp
  have 2: "\<forall>st'. \<not> dfs_calls s1 s2 (i, j, 0) st'"
    using na by (auto elim: dfs_calls.cases)
  have 3: "\<forall>seg. \<not> calls_get_options s1 s2 (i, j, 0) seg"
    by (simp add: calls_get_options_def)
  have 4: "possiblyEquals ''1'' ''01'' = Inr False"
    by (simp add: possiblyEquals_eq)
  from 1 2 3 4 show ?thesis by blast
qed

theorem dfs_zero_digits_rejected_witness:
  "(0::nat) < length ''1'' \<and> (0::nat) < length ''01'' \<and>
   isdigit (''1'' ! 0) \<and> isdigit (''01'' ! 0) \<and>
   dfs ''1'' ''01'' 0 0 0 = Inr False \<and>
   (\<forall>st'. \<not> dfs_calls ''1'' ''01'' (0, 0, 0) st')"
proof -
  have d1: "isdigit (''1'' ! 0)" and d2: "isdigit (''01'' ! 0)"
    by (simp_all add: isdigit_def)
  show ?thesis
    using d1 d2 dfs_zero_digits_rejected [of 0 "''1''" 0 "''01''", OF _ _ d1 d2] by simp
qed

end
